theory Spec2Isabelle
  imports Main
begin

section \<open>The hotel safe of \<^verbatim>\<open>src/src/safe.ts\<close>\<close>

subsection \<open>Buttons and controller states\<close>

text \<open>
  \<^verbatim>\<open>export enum Button { D0, D1, ..., D9, LOCK, KEY, PIN }\<close> is a numeric enum: each
  member is the number of its position. The source compares buttons as numbers and prints
  them with \<^verbatim>\<open>toString()\<close>, so the model keeps that number as \<open>buttonValue\<close>.
\<close>

datatype Button = D0 | D1 | D2 | D3 | D4 | D5 | D6 | D7 | D8 | D9 | LOCK | KEY | PIN

fun buttonValue :: "Button \<Rightarrow> nat" where
  "buttonValue D0 = 0"
| "buttonValue D1 = 1"
| "buttonValue D2 = 2"
| "buttonValue D3 = 3"
| "buttonValue D4 = 4"
| "buttonValue D5 = 5"
| "buttonValue D6 = 6"
| "buttonValue D7 = 7"
| "buttonValue D8 = 8"
| "buttonValue D9 = 9"
| "buttonValue LOCK = 10"
| "buttonValue KEY = 11"
| "buttonValue PIN = 12"

datatype SafeState = LOCKED_IDLE | LOCKED_ERROR | ENTERING_PIN | UNLOCKED | SETTING_NEW_PIN

subsection \<open>String helpers of the JavaScript runtime\<close>

text \<open>\<^verbatim>\<open>Number.prototype.toString()\<close> on a non-negative integer: its decimal digits.\<close>

definition digitChar :: "nat \<Rightarrow> char" where
  "digitChar n = ''0123456789'' ! n"

fun numberToString :: "nat \<Rightarrow> string" where
  "numberToString n =
     (if n < 10 then [digitChar n]
      else numberToString (n div 10) @ [digitChar (n mod 10)])"

declare numberToString.simps [simp del]

text \<open>
  \<^verbatim>\<open>s.padEnd(n, ' ')\<close> appends pad characters up to length \<open>n\<close> and returns \<open>s\<close>
  itself when it is already that long or longer: it never shortens.
\<close>

definition padEnd :: "string \<Rightarrow> nat \<Rightarrow> char \<Rightarrow> string" where
  "padEnd s n c = s @ replicate (n - length s) c"

text \<open>\<^verbatim>\<open>s.substring(0, n)\<close>: the first \<open>n\<close> characters.\<close>

definition substring0 :: "string \<Rightarrow> nat \<Rightarrow> string" where
  "substring0 s n = take n s"

subsection \<open>The class \<^verbatim>\<open>SafeImpl\<close>\<close>

record SafeImpl =
  locked :: bool
  display :: string
  currentPin :: string
  state :: SafeState
  enteredDigits :: string
  newPinBuffer :: string

text \<open>The field initialisers of the class: the state of a freshly constructed safe.\<close>

definition newSafeImpl :: SafeImpl where
  "newSafeImpl =
     \<lparr> locked = True, display = ''      '', currentPin = ''123456'',
       state = LOCKED_IDLE, enteredDigits = '''', newPinBuffer = '''' \<rparr>"

definition isDigitButton :: "Button \<Rightarrow> bool" where
  "isDigitButton button \<longleftrightarrow>
     buttonValue button \<ge> buttonValue D0 \<and> buttonValue button \<le> buttonValue D9"

definition buttonToDigit :: "Button \<Rightarrow> string" where
  "buttonToDigit button =
     (if buttonValue button \<ge> buttonValue D0 \<and> buttonValue button \<le> buttonValue D9
      then numberToString (buttonValue button)
      else '''')"

definition readDisplay :: "SafeImpl \<Rightarrow> string" where
  "readDisplay s = display s"

definition isLocked :: "SafeImpl \<Rightarrow> bool" where
  "isLocked s = locked s"

definition handleLockedIdle :: "Button \<Rightarrow> SafeImpl \<Rightarrow> SafeImpl" where
  "handleLockedIdle button s =
     (if button = KEY then
        s\<lparr>state := ENTERING_PIN, enteredDigits := '''', display := ''      ''\<rparr>
      else if button = LOCK then s
      else if isDigitButton button then
        s\<lparr>state := LOCKED_ERROR, display := ''ERROR ''\<rparr>
      else s)"

definition handleLockedError :: "Button \<Rightarrow> SafeImpl \<Rightarrow> SafeImpl" where
  "handleLockedError button s =
     (if button = KEY then
        s\<lparr>state := ENTERING_PIN, enteredDigits := '''', display := ''      ''\<rparr>
      else s\<lparr>display := ''ERROR ''\<rparr>)"

definition handleEnteringPin :: "Button \<Rightarrow> SafeImpl \<Rightarrow> SafeImpl" where
  "handleEnteringPin button s =
     (if isDigitButton button then
        let digit = buttonToDigit button;
            s1 = s\<lparr>enteredDigits := enteredDigits s @ digit\<rparr>;
            s2 = s1\<lparr>display := padEnd (enteredDigits s1) 6 (CHR '' '')\<rparr>
        in if length (enteredDigits s2) = 6 then
             let s3 = (if enteredDigits s2 = currentPin s2 then
                         s2\<lparr>locked := False, display := ''OPEN  '', state := UNLOCKED\<rparr>
                       else
                         s2\<lparr>display := ''      '', state := LOCKED_IDLE\<rparr>)
             in s3\<lparr>enteredDigits := ''''\<rparr>
           else s2
      else if button = KEY then
        s\<lparr>enteredDigits := '''', display := ''      ''\<rparr>
      else s)"

definition handleUnlocked :: "Button \<Rightarrow> SafeImpl \<Rightarrow> SafeImpl" where
  "handleUnlocked button s =
     (if button = LOCK then
        s\<lparr>locked := True, display := ''CLOSED'', state := LOCKED_IDLE\<rparr>
      else if button = PIN then
        s\<lparr>state := SETTING_NEW_PIN, newPinBuffer := '''', display := ''      ''\<rparr>
      else s)"

definition handleSettingNewPin :: "Button \<Rightarrow> SafeImpl \<Rightarrow> SafeImpl" where
  "handleSettingNewPin button s =
     (if isDigitButton button then
        let digit = buttonToDigit button;
            s1 = s\<lparr>newPinBuffer := newPinBuffer s @ digit\<rparr>;
            s2 = s1\<lparr>display := padEnd (newPinBuffer s1) 6 (CHR '' '')\<rparr>
        in if length (newPinBuffer s2) > 6 then
             s2\<lparr>newPinBuffer := substring0 (newPinBuffer s2) 6\<rparr>
           else s2
      else if button = PIN \<and> length (newPinBuffer s) = 6 then
        s\<lparr>currentPin := newPinBuffer s, display := ''CODE  '',
          state := UNLOCKED, newPinBuffer := ''''\<rparr>
      else s)"

definition enter :: "Button \<Rightarrow> SafeImpl \<Rightarrow> SafeImpl" where
  "enter button s =
     (case state s of
        LOCKED_IDLE \<Rightarrow> handleLockedIdle button s
      | LOCKED_ERROR \<Rightarrow> handleLockedError button s
      | ENTERING_PIN \<Rightarrow> handleEnteringPin button s
      | UNLOCKED \<Rightarrow> handleUnlocked button s
      | SETTING_NEW_PIN \<Rightarrow> handleSettingNewPin button s)"

subsection \<open>Sequences of button presses and reachable states\<close>

text \<open>Pressing the buttons of a list one after the other, first to last.\<close>

fun enterAll :: "Button list \<Rightarrow> SafeImpl \<Rightarrow> SafeImpl" where
  "enterAll [] s = s"
| "enterAll (b # bs) s = enterAll bs (enter b s)"

text \<open>
  The reachable states: the fresh safe, and every state that one more \<open>enter\<close> call
  produces from a reachable one.
\<close>

inductive reachable :: "SafeImpl \<Rightarrow> bool" where
  fresh: "reachable newSafeImpl"
| press: "reachable s \<Longrightarrow> reachable (enter b s)"

text \<open>The digit string that a list of buttons types.\<close>

definition typed :: "Button list \<Rightarrow> string" where
  "typed bs = concat (map buttonToDigit bs)"

subsection \<open>Predicates used in the proofs\<close>

text \<open>
  What every reachable state satisfies: the stored lock flag agrees with the state tag,
  the entry buffer holds at most 5 characters between calls, the new-PIN buffer at most 6,
  and the error state shows the error text.
\<close>

definition consistent :: "SafeImpl \<Rightarrow> bool" where
  "consistent s \<longleftrightarrow>
     (locked s \<longleftrightarrow> state s \<noteq> UNLOCKED \<and> state s \<noteq> SETTING_NEW_PIN) \<and>
     length (enteredDigits s) \<le> 5 \<and>
     length (newPinBuffer s) \<le> 6 \<and>
     (state s = LOCKED_ERROR \<longrightarrow> display s = ''ERROR '')"

text \<open>
  The stored PIN is typed by six digit buttons and the new-PIN buffer by digit buttons.
\<close>

definition digitsTyped :: "SafeImpl \<Rightarrow> bool" where
  "digitsTyped s \<longleftrightarrow>
     (\<exists>os. length os = 6 \<and> list_all isDigitButton os \<and> typed os = currentPin s) \<and>
     (\<exists>ns. list_all isDigitButton ns \<and> typed ns = newPinBuffer s)"

text \<open>
  The length of the display: 6 characters outside \<open>SETTING_NEW_PIN\<close>, and 6 or 7
  inside it.
\<close>

definition displayShape :: "SafeImpl \<Rightarrow> bool" where
  "displayShape s \<longleftrightarrow>
     (if state s = SETTING_NEW_PIN then length (display s) = 6 \<or> length (display s) = 7
      else length (display s) = 6)"

section \<open>Basic facts\<close>

lemma isDigitButton_cases:
  "isDigitButton b \<longleftrightarrow> b \<in> {D0, D1, D2, D3, D4, D5, D6, D7, D8, D9}"
  by (cases b) (simp_all add: isDigitButton_def)

lemma buttonToDigit_simps [simp]:
  "buttonToDigit D0 = ''0''" "buttonToDigit D1 = ''1''" "buttonToDigit D2 = ''2''"
  "buttonToDigit D3 = ''3''" "buttonToDigit D4 = ''4''" "buttonToDigit D5 = ''5''"
  "buttonToDigit D6 = ''6''" "buttonToDigit D7 = ''7''" "buttonToDigit D8 = ''8''"
  "buttonToDigit D9 = ''9''" "buttonToDigit LOCK = ''''" "buttonToDigit KEY = ''''"
  "buttonToDigit PIN = ''''"
  by (simp_all add: buttonToDigit_def numberToString.simps digitChar_def)

lemma isDigitButton_simps [simp]:
  "isDigitButton D0" "isDigitButton D1" "isDigitButton D2" "isDigitButton D3"
  "isDigitButton D4" "isDigitButton D5" "isDigitButton D6" "isDigitButton D7"
  "isDigitButton D8" "isDigitButton D9" "\<not> isDigitButton LOCK" "\<not> isDigitButton KEY"
  "\<not> isDigitButton PIN"
  by (simp_all add: isDigitButton_def)

lemma buttonToDigit_length: "isDigitButton b \<Longrightarrow> length (buttonToDigit b) = 1"
  by (cases b) simp_all

text \<open>
  The equations that evaluate a run of button presses on a concrete safe.
\<close>

lemmas run_simps =
  enter_def handleLockedIdle_def handleLockedError_def handleEnteringPin_def
  handleUnlocked_def handleSettingNewPin_def padEnd_def substring0_def Let_def
  newSafeImpl_def readDisplay_def isLocked_def

lemma enterAll_append: "enterAll (xs @ ys) s = enterAll ys (enterAll xs s)"
  by (induction xs arbitrary: s) simp_all

lemma typed_Nil [simp]: "typed [] = ''''"
  by (simp add: typed_def)

lemma typed_Cons [simp]: "typed (b # bs) = buttonToDigit b @ typed bs"
  by (simp add: typed_def)

lemma typed_append: "typed (xs @ ys) = typed xs @ typed ys"
  by (simp add: typed_def)

lemma length_typed: "list_all isDigitButton bs \<Longrightarrow> length (typed bs) = length bs"
  by (induction bs) (simp_all add: buttonToDigit_length)

lemma list_all_take: "list_all P xs \<Longrightarrow> list_all P (take n xs)"
  by (auto simp add: list_all_iff dest: in_set_takeD)

lemma take_typed: "list_all isDigitButton bs \<Longrightarrow> take n (typed bs) = typed (take n bs)"
proof (induction bs arbitrary: n)
  case Nil
  then show ?case by simp
next
  case (Cons b bs)
  then have "length (buttonToDigit b) = 1" by (simp add: buttonToDigit_length)
  then obtain c where c: "buttonToDigit b = [c]"
    by (cases "buttonToDigit b") simp_all
  with Cons show ?case by (cases n) simp_all
qed

lemma empty_typed: "\<exists>ns. list_all isDigitButton ns \<and> typed ns = []"
  by (rule exI [of _ "[]"]) simp

section \<open>Invariants of the reachable states\<close>

lemma consistent_fresh: "consistent newSafeImpl"
  by (simp add: consistent_def newSafeImpl_def)

lemma consistent_enter:
  assumes "consistent s"
  shows "consistent (enter b s)"
proof (cases "state s")
  case LOCKED_IDLE
  with assms show ?thesis
    by (simp add: consistent_def enter_def handleLockedIdle_def)
next
  case LOCKED_ERROR
  with assms show ?thesis
    by (simp add: consistent_def enter_def handleLockedError_def)
next
  case ENTERING_PIN
  with assms show ?thesis
    by (auto simp add: consistent_def enter_def handleEnteringPin_def Let_def
        buttonToDigit_length)
next
  case UNLOCKED
  with assms show ?thesis
    by (simp add: consistent_def enter_def handleUnlocked_def)
next
  case SETTING_NEW_PIN
  with assms show ?thesis
    by (auto simp add: consistent_def enter_def handleSettingNewPin_def Let_def
        substring0_def buttonToDigit_length)
qed

lemma reachable_consistent: "reachable s \<Longrightarrow> consistent s"
  by (induction rule: reachable.induct) (simp_all add: consistent_fresh consistent_enter)

lemma reachable_enterAll: "reachable s \<Longrightarrow> reachable (enterAll bs s)"
  by (induction bs arbitrary: s) (simp_all add: reachable.press)

lemma reachable_run: "reachable s \<Longrightarrow> \<exists>bs. s = enterAll bs newSafeImpl"
proof (induction rule: reachable.induct)
  case fresh
  have "newSafeImpl = enterAll [] newSafeImpl" by simp
  then show ?case by (rule exI)
next
  case (press s b)
  then obtain bs where "s = enterAll bs newSafeImpl" by blast
  then have "enter b s = enterAll (bs @ [b]) newSafeImpl"
    by (simp add: enterAll_append)
  then show ?case by (rule exI)
qed

lemma digitsTyped_fresh: "digitsTyped newSafeImpl"
proof -
  have "\<exists>os. length os = 6 \<and> list_all isDigitButton os \<and> typed os = currentPin newSafeImpl"
    by (rule exI [of _ "[D1, D2, D3, D4, D5, D6]"]) (simp add: newSafeImpl_def)
  then show ?thesis
    by (simp add: digitsTyped_def empty_typed) (simp add: newSafeImpl_def empty_typed)
qed

lemma digitsTyped_enter:
  assumes "digitsTyped s"
  shows "digitsTyped (enter b s)"
proof -
  from assms obtain os ns where os: "length os = 6" "list_all isDigitButton os"
    "typed os = currentPin s" and ns: "list_all isDigitButton ns" "typed ns = newPinBuffer s"
    unfolding digitsTyped_def by blast
  have empty: "list_all isDigitButton [] \<and> typed [] = ''''" by simp
  show ?thesis
  proof (cases "state s")
    case LOCKED_IDLE
    with assms show ?thesis
      by (simp add: digitsTyped_def enter_def handleLockedIdle_def)
  next
    case LOCKED_ERROR
    with assms show ?thesis
      by (simp add: digitsTyped_def enter_def handleLockedError_def)
  next
    case ENTERING_PIN
    with assms show ?thesis
      by (simp add: digitsTyped_def enter_def handleEnteringPin_def Let_def)
  next
    case UNLOCKED
    with assms show ?thesis
      by (simp add: digitsTyped_def enter_def handleUnlocked_def empty_typed)
  next
    case SETTING_NEW_PIN
    show ?thesis
    proof (cases "isDigitButton b")
      case True
      let ?ms = "take 6 (ns @ [b])"
      have all: "list_all isDigitButton (ns @ [b])" using ns(1) True by simp
      have ty: "typed (ns @ [b]) = newPinBuffer s @ buttonToDigit b"
        by (simp add: typed_append ns(2))
      have "newPinBuffer (enter b s) = take 6 (newPinBuffer s @ buttonToDigit b)"
        using SETTING_NEW_PIN True
        by (simp add: enter_def handleSettingNewPin_def Let_def substring0_def)
      also have "\<dots> = typed ?ms"
        using take_typed [OF all, of 6] ty by simp
      finally have buf: "typed ?ms = newPinBuffer (enter b s)" by simp
      have ms: "list_all isDigitButton ?ms"
        using all by (rule list_all_take)
      have pin: "currentPin (enter b s) = currentPin s"
        using SETTING_NEW_PIN True
        by (simp add: enter_def handleSettingNewPin_def Let_def)
      from os ms buf pin show ?thesis
        unfolding digitsTyped_def by metis
    next
      case False
      show ?thesis
      proof (cases "b = PIN \<and> length (newPinBuffer s) = 6")
        case True
        then have st: "currentPin (enter b s) = newPinBuffer s" "newPinBuffer (enter b s) = ''''"
          using SETTING_NEW_PIN by (simp_all add: enter_def handleSettingNewPin_def)
        have "length ns = 6" using True length_typed [OF ns(1)] ns(2) by simp
        with ns st empty show ?thesis
          unfolding digitsTyped_def by metis
      next
        case False
        with \<open>\<not> isDigitButton b\<close> SETTING_NEW_PIN have "enter b s = s"
          by (auto simp add: enter_def handleSettingNewPin_def)
        with assms show ?thesis by simp
      qed
    qed
  qed
qed

lemma reachable_digitsTyped: "reachable s \<Longrightarrow> digitsTyped s"
  by (induction rule: reachable.induct) (simp_all add: digitsTyped_fresh digitsTyped_enter)

text \<open>
  In every reachable state the stored PIN is what six digit buttons type, so "the six
  digits of the current PIN" can always be pressed.
\<close>

lemma reachable_currentPin_typed:
  "reachable s \<Longrightarrow> \<exists>os. length os = 6 \<and> list_all isDigitButton os \<and> typed os = currentPin s"
  using reachable_digitsTyped [of s] by (simp add: digitsTyped_def)

lemma displayShape_fresh: "displayShape newSafeImpl"
  by (simp add: displayShape_def newSafeImpl_def)

lemma displayShape_enter:
  assumes "consistent s" and "displayShape s"
  shows "displayShape (enter b s)"
proof (cases "state s")
  case LOCKED_IDLE
  with assms show ?thesis
    by (simp add: displayShape_def enter_def handleLockedIdle_def)
next
  case LOCKED_ERROR
  with assms show ?thesis
    by (simp add: displayShape_def enter_def handleLockedError_def)
next
  case ENTERING_PIN
  with assms show ?thesis
    by (auto simp add: displayShape_def consistent_def enter_def handleEnteringPin_def Let_def
        padEnd_def buttonToDigit_length)
next
  case UNLOCKED
  with assms show ?thesis
    by (simp add: displayShape_def enter_def handleUnlocked_def)
next
  case SETTING_NEW_PIN
  with assms show ?thesis
    by (auto simp add: displayShape_def consistent_def enter_def handleSettingNewPin_def
        Let_def padEnd_def buttonToDigit_length)
qed

lemma reachable_displayShape: "reachable s \<Longrightarrow> displayShape s"
  by (induction rule: reachable.induct)
    (simp_all add: displayShape_fresh displayShape_enter reachable_consistent)

text \<open>
  Outside \<open>SETTING_NEW_PIN\<close> the display of a reachable state has exactly 6
  characters.
\<close>

lemma display_length_outside_setting:
  "reachable s \<Longrightarrow> state s \<noteq> SETTING_NEW_PIN \<Longrightarrow> length (readDisplay s) = 6"
  using reachable_displayShape [of s] by (simp add: displayShape_def readDisplay_def)

section \<open>Runs of digit presses\<close>

lemma settingNewPin_digit:
  assumes "state s = SETTING_NEW_PIN" and "isDigitButton b"
    and "length (newPinBuffer s) < 6"
  shows "state (enter b s) = SETTING_NEW_PIN"
    and "newPinBuffer (enter b s) = newPinBuffer s @ buttonToDigit b"
    and "locked (enter b s) = locked s"
    and "currentPin (enter b s) = currentPin s"
    and "enteredDigits (enter b s) = enteredDigits s"
  using assms
  by (simp_all add: enter_def handleSettingNewPin_def Let_def buttonToDigit_length)

lemma settingNewPin_digits:
  "state s = SETTING_NEW_PIN \<Longrightarrow> list_all isDigitButton bs \<Longrightarrow>
   length (newPinBuffer s) + length bs \<le> 6 \<Longrightarrow>
     state (enterAll bs s) = SETTING_NEW_PIN \<and>
     newPinBuffer (enterAll bs s) = newPinBuffer s @ typed bs \<and>
     locked (enterAll bs s) = locked s \<and>
     currentPin (enterAll bs s) = currentPin s"
proof (induction bs arbitrary: s)
  case Nil
  then show ?case by simp
next
  case (Cons b bs)
  from Cons.prems have b: "isDigitButton b" and bs: "list_all isDigitButton bs"
    and len: "length (newPinBuffer s) < 6" by simp_all
  note step = settingNewPin_digit [OF Cons.prems(1) b len]
  have "length (newPinBuffer (enter b s)) + length bs \<le> 6"
    using Cons.prems(3) b by (simp add: step buttonToDigit_length)
  from Cons.IH [OF step(1) bs this] show ?case
    by (simp add: step)
qed

lemma enteringPin_digit:
  assumes "state s = ENTERING_PIN" and "isDigitButton b"
    and "length (enteredDigits s) < 5"
  shows "state (enter b s) = ENTERING_PIN"
    and "enteredDigits (enter b s) = enteredDigits s @ buttonToDigit b"
    and "locked (enter b s) = locked s"
    and "currentPin (enter b s) = currentPin s"
  using assms
  by (simp_all add: enter_def handleEnteringPin_def Let_def buttonToDigit_length)

lemma enteringPin_digits:
  "state s = ENTERING_PIN \<Longrightarrow> list_all isDigitButton bs \<Longrightarrow>
   length (enteredDigits s) + length bs < 6 \<Longrightarrow>
     state (enterAll bs s) = ENTERING_PIN \<and>
     enteredDigits (enterAll bs s) = enteredDigits s @ typed bs \<and>
     locked (enterAll bs s) = locked s \<and>
     currentPin (enterAll bs s) = currentPin s"
proof (induction bs arbitrary: s)
  case Nil
  then show ?case by simp
next
  case (Cons b bs)
  from Cons.prems have b: "isDigitButton b" and bs: "list_all isDigitButton bs"
    and len: "length (enteredDigits s) < 5" by simp_all
  note step = enteringPin_digit [OF Cons.prems(1) b len]
  have "length (enteredDigits (enter b s)) + length bs < 6"
    using Cons.prems(3) b by (simp add: step buttonToDigit_length)
  from Cons.IH [OF step(1) bs this] show ?case
    by (simp add: step)
qed

lemma enteringPin_attempt:
  assumes st: "state s = ENTERING_PIN" and empty: "enteredDigits s = ''''"
    and digits: "list_all isDigitButton bs" and six: "length bs = 6"
    and lk: "locked s"
  shows "locked (enterAll bs s) \<longleftrightarrow> typed bs \<noteq> currentPin s"
proof -
  from six obtain xs x where bs: "bs = xs @ [x]"
    by (cases bs rule: rev_cases) auto
  with digits six have xs: "list_all isDigitButton xs" and x: "isDigitButton x"
    and lxs: "length xs = 5" by simp_all
  let ?t = "enterAll xs s"
  have pre: "state ?t = ENTERING_PIN" "enteredDigits ?t = typed xs"
    "locked ?t = locked s" "currentPin ?t = currentPin s"
    using enteringPin_digits [OF st xs] empty lxs by simp_all
  have "length (typed xs @ buttonToDigit x) = 6"
    using xs x lxs by (simp add: length_typed buttonToDigit_length)
  then have "locked (enter x ?t) \<longleftrightarrow> typed xs @ buttonToDigit x \<noteq> currentPin s"
    using pre x lk by (simp add: enter_def handleEnteringPin_def Let_def)
  then show ?thesis
    by (simp add: bs enterAll_append typed_append)
qed

lemma change_pin_then_lock:
  assumes st: "state s = UNLOCKED" and six: "length bs = 6"
    and digits: "list_all isDigitButton bs"
  defines "t \<equiv> enterAll (PIN # bs @ [PIN, LOCK, KEY]) s"
  shows "state t = ENTERING_PIN" and "enteredDigits t = ''''" and "locked t"
    and "currentPin t = typed bs"
proof -
  let ?s1 = "enter PIN s"
  have s1: "state ?s1 = SETTING_NEW_PIN" "newPinBuffer ?s1 = ''''"
    using st by (simp_all add: enter_def handleUnlocked_def)
  let ?s2 = "enterAll bs ?s1"
  have s2: "state ?s2 = SETTING_NEW_PIN" "newPinBuffer ?s2 = typed bs"
    using settingNewPin_digits [OF s1(1) digits] s1(2) six by simp_all
  have len: "length (newPinBuffer ?s2) = 6"
    using digits six by (simp add: s2 length_typed)
  let ?s3 = "enter PIN ?s2"
  have s3: "state ?s3 = UNLOCKED" "currentPin ?s3 = typed bs"
    using s2 len by (simp_all add: enter_def handleSettingNewPin_def)
  let ?s4 = "enter LOCK ?s3"
  have s4: "state ?s4 = LOCKED_IDLE" "currentPin ?s4 = typed bs" "locked ?s4"
    using s3 by (simp_all add: enter_def handleUnlocked_def)
  let ?s5 = "enter KEY ?s4"
  have s5: "state ?s5 = ENTERING_PIN" "currentPin ?s5 = typed bs" "locked ?s5"
    "enteredDigits ?s5 = ''''"
    using s4 by (simp_all add: enter_def handleLockedIdle_def)
  have "t = ?s5" by (simp add: t_def enterAll_append)
  with s5 show "state t = ENTERING_PIN" and "enteredDigits t = ''''" and "locked t"
    and "currentPin t = typed bs" by simp_all
qed

section \<open>The transition of every state and button\<close>

text \<open>
  The next state tag of every pair of state and button, read off the five handlers.
\<close>

lemma enter_state_table:
  "state (enter b s) =
     (case state s of
        LOCKED_IDLE \<Rightarrow>
          if b = KEY then ENTERING_PIN else if isDigitButton b then LOCKED_ERROR else LOCKED_IDLE
      | LOCKED_ERROR \<Rightarrow> if b = KEY then ENTERING_PIN else LOCKED_ERROR
      | ENTERING_PIN \<Rightarrow>
          if isDigitButton b \<and> length (enteredDigits s) = 5
          then (if enteredDigits s @ buttonToDigit b = currentPin s then UNLOCKED
                else LOCKED_IDLE)
          else ENTERING_PIN
      | UNLOCKED \<Rightarrow>
          if b = LOCK then LOCKED_IDLE else if b = PIN then SETTING_NEW_PIN else UNLOCKED
      | SETTING_NEW_PIN \<Rightarrow>
          if b = PIN \<and> length (newPinBuffer s) = 6 then UNLOCKED else SETTING_NEW_PIN)"
proof (cases "state s")
  case LOCKED_IDLE
  then show ?thesis
    by (cases b) (simp_all add: enter_def handleLockedIdle_def)
next
  case LOCKED_ERROR
  then show ?thesis
    by (simp add: enter_def handleLockedError_def)
next
  case ENTERING_PIN
  then show ?thesis
    by (simp add: enter_def handleEnteringPin_def Let_def buttonToDigit_length)
next
  case UNLOCKED
  then show ?thesis
    by (simp add: enter_def handleUnlocked_def)
next
  case SETTING_NEW_PIN
  then show ?thesis
    by (cases b) (simp_all add: enter_def handleSettingNewPin_def Let_def)
qed

text \<open>
  The pairs for which no branch of a handler assigns anything: the safe is returned as it
  was.
\<close>

lemma enter_without_assignment:
  "(state s = LOCKED_IDLE \<and> (b = LOCK \<or> b = PIN)) \<or>
   (state s = ENTERING_PIN \<and> (b = LOCK \<or> b = PIN)) \<or>
   (state s = UNLOCKED \<and> (isDigitButton b \<or> b = KEY)) \<or>
   (state s = SETTING_NEW_PIN \<and> (b = LOCK \<or> b = KEY \<or> (b = PIN \<and> length (newPinBuffer s) \<noteq> 6)))
   \<Longrightarrow> enter b s = s"
  by (auto simp add: enter_def handleLockedIdle_def handleEnteringPin_def handleUnlocked_def
      handleSettingNewPin_def isDigitButton_cases)

text \<open>
  A digit pressed in \<open>SETTING_NEW_PIN\<close> on a full buffer: the buffer, the stored PIN,
  the state and the lock flag stay, and the display receives seven characters.
\<close>

lemma extra_new_pin_digit:
  assumes "state s = SETTING_NEW_PIN" and "isDigitButton b" and "length (newPinBuffer s) = 6"
  shows "state (enter b s) = SETTING_NEW_PIN"
    and "locked (enter b s) = locked s"
    and "currentPin (enter b s) = currentPin s"
    and "newPinBuffer (enter b s) = newPinBuffer s"
    and "display (enter b s) = newPinBuffer s @ buttonToDigit b"
    and "length (display (enter b s)) = 7"
proof -
  from assms(2) have "length (buttonToDigit b) = 1" by (rule buttonToDigit_length)
  then obtain c where c: "buttonToDigit b = [c]"
    by (cases "buttonToDigit b") simp_all
  from assms show "state (enter b s) = SETTING_NEW_PIN"
    and "locked (enter b s) = locked s"
    and "currentPin (enter b s) = currentPin s"
    and "newPinBuffer (enter b s) = newPinBuffer s"
    and "display (enter b s) = newPinBuffer s @ buttonToDigit b"
    and "length (display (enter b s)) = 7"
    by (simp_all add: enter_def handleSettingNewPin_def Let_def substring0_def padEnd_def c)
qed

section \<open>The claims\<close>

subsection \<open>C1: the display has 6 characters in every reachable state\<close>

text \<open>
  C1 says that \<open>readDisplay\<close> returns exactly 6 characters in every reachable state.
  \<open>handleSettingNewPin\<close> writes \<open>padEnd\<close> of the buffer to the display before it cuts
  the buffer back to 6 characters, and \<open>padEnd\<close> never shortens. After unlocking with
  the factory PIN and pressing PIN, the seventh digit leaves a display of 7 characters:
  the statement below evaluates the code on that run.
\<close>

theorem seventh_new_pin_digit_display:
  "readDisplay (enterAll [KEY, D1, D2, D3, D4, D5, D6, PIN, D1, D2, D3, D4, D5, D6, D7]
     newSafeImpl) = ''1234567'' \<and>
   length (readDisplay (enterAll [KEY, D1, D2, D3, D4, D5, D6, PIN, D1, D2, D3, D4, D5, D6, D7]
     newSafeImpl)) = 7"
  by (simp add: run_simps)

subsection \<open>C2: the sixth digit of an entry decides it\<close>

text \<open>
  C2: in \<open>ENTERING_PIN\<close>, when a digit press brings the entered digits to length 6,
  the same call decides. If the six digits equal the stored PIN as a whole string, the safe
  is \<open>UNLOCKED\<close>, shows \<open>OPEN\<close> followed by two spaces and is not locked; otherwise it
  is \<open>LOCKED_IDLE\<close>, shows six spaces and is locked. The entered digits are cleared in
  both cases.
\<close>

theorem entering_pin_sixth_digit:
  assumes "reachable s" and "state s = ENTERING_PIN" and "isDigitButton b"
    and "length (enteredDigits s @ buttonToDigit b) = 6"
  shows "if enteredDigits s @ buttonToDigit b = currentPin s
         then state (enter b s) = UNLOCKED \<and> readDisplay (enter b s) = ''OPEN  '' \<and>
              \<not> isLocked (enter b s) \<and> enteredDigits (enter b s) = ''''
         else state (enter b s) = LOCKED_IDLE \<and> readDisplay (enter b s) = ''      '' \<and>
              isLocked (enter b s) \<and> enteredDigits (enter b s) = ''''"
  using assms reachable_consistent [of s]
  by (simp add: consistent_def enter_def handleEnteringPin_def Let_def readDisplay_def
      isLocked_def)

theorem entering_pin_sixth_digit_witness:
  "reachable (enterAll [KEY, D1, D2, D3, D4, D5] newSafeImpl) \<and>
   state (enterAll [KEY, D1, D2, D3, D4, D5] newSafeImpl) = ENTERING_PIN \<and>
   state (enter D6 (enterAll [KEY, D1, D2, D3, D4, D5] newSafeImpl)) = UNLOCKED \<and>
   readDisplay (enter D6 (enterAll [KEY, D1, D2, D3, D4, D5] newSafeImpl)) = ''OPEN  '' \<and>
   \<not> isLocked (enter D6 (enterAll [KEY, D1, D2, D3, D4, D5] newSafeImpl)) \<and>
   state (enter D7 (enterAll [KEY, D1, D2, D3, D4, D5] newSafeImpl)) = LOCKED_IDLE \<and>
   readDisplay (enter D7 (enterAll [KEY, D1, D2, D3, D4, D5] newSafeImpl)) = ''      '' \<and>
   isLocked (enter D7 (enterAll [KEY, D1, D2, D3, D4, D5] newSafeImpl))"
proof -
  let ?s = "enterAll [KEY, D1, D2, D3, D4, D5] newSafeImpl"
  have r: "reachable ?s"
    by (rule reachable_enterAll [OF reachable.fresh])
  have st: "state ?s = ENTERING_PIN"
    and buf: "enteredDigits ?s = ''12345''" and pin: "currentPin ?s = ''123456''"
    by (simp_all add: run_simps)
  have l6: "length (enteredDigits ?s @ buttonToDigit D6) = 6"
    and l7: "length (enteredDigits ?s @ buttonToDigit D7) = 6"
    by (simp_all add: run_simps)
  from entering_pin_sixth_digit [OF r st _ l6] entering_pin_sixth_digit [OF r st _ l7]
    r st buf pin
  show ?thesis by simp
qed

subsection \<open>C3: the lock flag follows the state tag\<close>

text \<open>
  C3: in every reachable state \<open>isLocked\<close> is false exactly when the state tag is
  \<open>UNLOCKED\<close> or \<open>SETTING_NEW_PIN\<close>; the stored flag never disagrees with the tag.
\<close>

theorem isLocked_derived_from_state:
  "reachable s \<Longrightarrow> (\<not> isLocked s) = (state s = UNLOCKED \<or> state s = SETTING_NEW_PIN)"
  using reachable_consistent [of s] by (auto simp add: consistent_def isLocked_def)

theorem isLocked_derived_from_state_witness:
  "reachable (enterAll [KEY, D1, D2, D3, D4, D5, D6] newSafeImpl) \<and>
   state (enterAll [KEY, D1, D2, D3, D4, D5, D6] newSafeImpl) = UNLOCKED \<and>
   \<not> isLocked (enterAll [KEY, D1, D2, D3, D4, D5, D6] newSafeImpl)"
proof -
  have r: "reachable (enterAll [KEY, D1, D2, D3, D4, D5, D6] newSafeImpl)"
    by (rule reachable_enterAll [OF reachable.fresh])
  have st: "state (enterAll [KEY, D1, D2, D3, D4, D5, D6] newSafeImpl) = UNLOCKED"
    by (simp add: run_simps)
  from isLocked_derived_from_state [OF r] r st show ?thesis by simp
qed

subsection \<open>C4: buffer bounds and the decision at length 6\<close>




subsection \<open>C5: round trip over a PIN change\<close>

text \<open>
  C5 says that for every six-digit sequence, after changing the PIN to it and locking,
  the new digits unlock and the digits of the previous PIN do not. When the new sequence
  is the previous PIN itself, the previous digits unlock the safe.
\<close>

theorem same_credential_round_trip_counterexample:
  "state (enterAll [KEY, D1, D2, D3, D4, D5, D6] newSafeImpl) = UNLOCKED \<and>
   typed [D1, D2, D3, D4, D5, D6] = currentPin (enterAll [KEY, D1, D2, D3, D4, D5, D6] newSafeImpl) \<and>
   \<not> isLocked (enterAll ([PIN, D1, D2, D3, D4, D5, D6, PIN, LOCK, KEY] @ [D1, D2, D3, D4, D5, D6])
      (enterAll [KEY, D1, D2, D3, D4, D5, D6] newSafeImpl))"
  by (simp add: run_simps)

text \<open>
  C5 as amended: from any \<open>UNLOCKED\<close> state and for every six digit buttons
  \<open>bs\<close>, pressing PIN, \<open>bs\<close>, PIN, LOCK, KEY and \<open>bs\<close> again ends unlocked; and when
  \<open>bs\<close> types something other than the previous PIN, pressing the six digits \<open>os\<close>
  of the previous PIN after the same change and LOCK, KEY ends locked.
\<close>

theorem credential_change_round_trip:
  assumes "state s = UNLOCKED"
    and "length bs = 6" and "list_all isDigitButton bs"
    and "length os = 6" and "list_all isDigitButton os"
    and "typed os = currentPin s"
  shows "\<not> isLocked (enterAll (PIN # bs @ [PIN, LOCK, KEY] @ bs) s) \<and>
         (typed bs \<noteq> currentPin s \<longrightarrow>
            isLocked (enterAll (PIN # bs @ [PIN, LOCK, KEY] @ os) s))"
proof -
  define t where "t = enterAll (PIN # bs @ [PIN, LOCK, KEY]) s"
  have t: "state t = ENTERING_PIN" "enteredDigits t = ''''" "locked t"
    "currentPin t = typed bs"
    unfolding t_def by (rule change_pin_then_lock [OF assms(1-3)])+
  have split: "enterAll (PIN # bs @ [PIN, LOCK, KEY] @ cs) s = enterAll cs t" for cs
    unfolding t_def using enterAll_append [of "PIN # bs @ [PIN, LOCK, KEY]" cs s] by simp
  have new: "\<not> locked (enterAll bs t)"
    using enteringPin_attempt [OF t(1) t(2) assms(3) assms(2) t(3)] t(4) by simp
  have old: "typed bs \<noteq> currentPin s \<Longrightarrow> locked (enterAll os t)"
    using enteringPin_attempt [OF t(1) t(2) assms(5) assms(4) t(3)] t(4) assms(6) by auto
  from new old show ?thesis
    by (simp only: split isLocked_def) simp
qed

theorem credential_change_round_trip_witness:
  "state (enterAll [KEY, D1, D2, D3, D4, D5, D6] newSafeImpl) = UNLOCKED \<and>
   typed [D1, D2, D3, D4, D5, D6] = currentPin (enterAll [KEY, D1, D2, D3, D4, D5, D6] newSafeImpl) \<and>
   typed [D7, D7, D7, D3, D3, D3] \<noteq> currentPin (enterAll [KEY, D1, D2, D3, D4, D5, D6] newSafeImpl) \<and>
   \<not> isLocked (enterAll (PIN # [D7, D7, D7, D3, D3, D3] @ [PIN, LOCK, KEY] @ [D7, D7, D7, D3, D3, D3])
      (enterAll [KEY, D1, D2, D3, D4, D5, D6] newSafeImpl)) \<and>
   isLocked (enterAll (PIN # [D7, D7, D7, D3, D3, D3] @ [PIN, LOCK, KEY] @ [D1, D2, D3, D4, D5, D6])
      (enterAll [KEY, D1, D2, D3, D4, D5, D6] newSafeImpl))"
proof -
  let ?s = "enterAll [KEY, D1, D2, D3, D4, D5, D6] newSafeImpl"
  have st: "state ?s = UNLOCKED" and pin: "currentPin ?s = ''123456''"
    by (simp_all add: run_simps)
  have old: "typed [D1, D2, D3, D4, D5, D6] = currentPin ?s"
    and new: "typed [D7, D7, D7, D3, D3, D3] \<noteq> currentPin ?s"
    by (simp_all add: run_simps)
  have l1: "length [D7, D7, D7, D3, D3, D3] = 6" and a1: "list_all isDigitButton [D7, D7, D7, D3, D3, D3]"
    and l2: "length [D1, D2, D3, D4, D5, D6] = 6" and a2: "list_all isDigitButton [D1, D2, D3, D4, D5, D6]"
    by simp_all
  from credential_change_round_trip [OF st l1 a1 l2 a2 old] st old new
  show ?thesis by blast
qed

subsection \<open>C6: every press is defined, and presses without an effect change nothing\<close>

text \<open>
  C6: \<open>enter\<close> is defined for every button in every state, and a pair of state and
  button without a listed effect leaves the state, the display and the lock flag as they
  were. The source has no \<^verbatim>\<open>throw\<close> and its \<^verbatim>\<open>switch\<close> covers the five
  states, so \<open>enter\<close> has no error result, and \<open>enter_state_table\<close> gives the next
  state of every pair. A digit pressed in \<open>SETTING_NEW_PIN\<close> when the buffer already
  holds six digits has no listed effect: extra digits are dropped. The handler does keep the
  buffer, the state and the lock flag, but it has written the seven characters to the
  display before it cuts the buffer. The statement below evaluates the code on such a
  press: the display changes from the six buffered digits to seven characters. It is the
  defect of C1, seen as a press that should have changed nothing.
\<close>

theorem extra_new_pin_digit_not_dropped:
  "state (enterAll [KEY, D1, D2, D3, D4, D5, D6, PIN, D7, D7, D7, D3, D3, D3] newSafeImpl)
     = SETTING_NEW_PIN \<and>
   newPinBuffer (enterAll [KEY, D1, D2, D3, D4, D5, D6, PIN, D7, D7, D7, D3, D3, D3] newSafeImpl)
     = ''777333'' \<and>
   readDisplay (enterAll [KEY, D1, D2, D3, D4, D5, D6, PIN, D7, D7, D7, D3, D3, D3] newSafeImpl)
     = ''777333'' \<and>
   state (enter D9
     (enterAll [KEY, D1, D2, D3, D4, D5, D6, PIN, D7, D7, D7, D3, D3, D3] newSafeImpl))
     = SETTING_NEW_PIN \<and>
   newPinBuffer (enter D9
     (enterAll [KEY, D1, D2, D3, D4, D5, D6, PIN, D7, D7, D7, D3, D3, D3] newSafeImpl))
     = ''777333'' \<and>
   readDisplay (enter D9
     (enterAll [KEY, D1, D2, D3, D4, D5, D6, PIN, D7, D7, D7, D3, D3, D3] newSafeImpl))
     = ''7773339''"
  by (simp add: run_simps)

subsection \<open>C7: the error path\<close>

text \<open>
  C7: from \<open>LOCKED_IDLE\<close> a digit leads to \<open>LOCKED_ERROR\<close> with the error text on
  the display; in \<open>LOCKED_ERROR\<close> every button but KEY keeps the state and the error
  text; KEY leads to \<open>ENTERING_PIN\<close> with six spaces on the display, and the safe is
  still locked.
\<close>

theorem error_path:
  "reachable s \<Longrightarrow>
     (state s = LOCKED_IDLE \<and> isDigitButton b \<longrightarrow>
        state (enter b s) = LOCKED_ERROR \<and> readDisplay (enter b s) = ''ERROR '') \<and>
     (state s = LOCKED_ERROR \<and> b \<noteq> KEY \<longrightarrow>
        state (enter b s) = LOCKED_ERROR \<and> readDisplay (enter b s) = ''ERROR '') \<and>
     (state s = LOCKED_ERROR \<longrightarrow>
        state (enter KEY s) = ENTERING_PIN \<and> readDisplay (enter KEY s) = ''      '' \<and>
        isLocked (enter KEY s))"
  using reachable_consistent [of s]
  by (auto simp add: consistent_def enter_def handleLockedIdle_def handleLockedError_def
      readDisplay_def isLocked_def)

theorem error_path_witness:
  "reachable newSafeImpl \<and> state newSafeImpl = LOCKED_IDLE \<and> isDigitButton D1 \<and>
   state (enter D1 newSafeImpl) = LOCKED_ERROR \<and>
   readDisplay (enter D1 newSafeImpl) = ''ERROR '' \<and>
   reachable (enter D1 newSafeImpl) \<and> D2 \<noteq> KEY \<and>
   state (enter D2 (enter D1 newSafeImpl)) = LOCKED_ERROR \<and>
   readDisplay (enter D2 (enter D1 newSafeImpl)) = ''ERROR '' \<and>
   state (enter KEY (enter D1 newSafeImpl)) = ENTERING_PIN \<and>
   readDisplay (enter KEY (enter D1 newSafeImpl)) = ''      '' \<and>
   isLocked (enter KEY (enter D1 newSafeImpl))"
proof -
  have r0: "reachable newSafeImpl" by (rule reachable.fresh)
  have r1: "reachable (enter D1 newSafeImpl)" by (rule reachable.press [OF r0])
  have st0: "state newSafeImpl = LOCKED_IDLE" by (simp add: newSafeImpl_def)
  from error_path [OF r0, of D1] st0
  have st1: "state (enter D1 newSafeImpl) = LOCKED_ERROR"
    and d1: "readDisplay (enter D1 newSafeImpl) = ''ERROR ''" by simp_all
  from error_path [OF r1, of D2] st1 r0 r1 st0 d1 show ?thesis by simp
qed

subsection \<open>C8: committing a new PIN\<close>

text \<open>
  C8: in \<open>SETTING_NEW_PIN\<close> the PIN button commits exactly when the buffer has 6
  characters: the buffer becomes the stored PIN, the display reads \<open>CODE\<close> followed by
  two spaces, the state is \<open>UNLOCKED\<close> and the buffer is empty. With any other buffer
  length the press changes nothing.
\<close>

theorem setting_new_pin_commit:
  "state s = SETTING_NEW_PIN \<Longrightarrow>
     (length (newPinBuffer s) = 6 \<longrightarrow>
        currentPin (enter PIN s) = newPinBuffer s \<and>
        readDisplay (enter PIN s) = ''CODE  '' \<and>
        state (enter PIN s) = UNLOCKED \<and>
        newPinBuffer (enter PIN s) = '''') \<and>
     (length (newPinBuffer s) \<noteq> 6 \<longrightarrow> enter PIN s = s)"
  by (simp add: enter_def handleSettingNewPin_def readDisplay_def)

theorem setting_new_pin_commit_witness:
  "state (enterAll [KEY, D1, D2, D3, D4, D5, D6, PIN, D7, D7, D7, D3, D3, D3] newSafeImpl)
     = SETTING_NEW_PIN \<and>
   currentPin (enter PIN
     (enterAll [KEY, D1, D2, D3, D4, D5, D6, PIN, D7, D7, D7, D3, D3, D3] newSafeImpl))
     = ''777333'' \<and>
   state (enterAll [KEY, D1, D2, D3, D4, D5, D6, PIN, D7, D7] newSafeImpl) = SETTING_NEW_PIN \<and>
   enter PIN (enterAll [KEY, D1, D2, D3, D4, D5, D6, PIN, D7, D7] newSafeImpl)
     = enterAll [KEY, D1, D2, D3, D4, D5, D6, PIN, D7, D7] newSafeImpl"
proof -
  have st6: "state (enterAll [KEY, D1, D2, D3, D4, D5, D6, PIN, D7, D7, D7, D3, D3, D3]
      newSafeImpl) = SETTING_NEW_PIN"
    and buf6: "newPinBuffer (enterAll [KEY, D1, D2, D3, D4, D5, D6, PIN, D7, D7, D7, D3, D3, D3]
      newSafeImpl) = ''777333''"
    by (simp_all add: run_simps)
  have st2: "state (enterAll [KEY, D1, D2, D3, D4, D5, D6, PIN, D7, D7] newSafeImpl)
      = SETTING_NEW_PIN"
    and buf2: "newPinBuffer (enterAll [KEY, D1, D2, D3, D4, D5, D6, PIN, D7, D7] newSafeImpl)
      = ''77''"
    by (simp_all add: run_simps)
  from setting_new_pin_commit [OF st6] setting_new_pin_commit [OF st2] st6 buf6 st2 buf2
  show ?thesis by simp
qed

subsection \<open>C9: LOCK while locked is idempotent\<close>

text \<open>
  C9: in a state whose tag is \<open>LOCKED_IDLE\<close>, pressing LOCK any number of times
  returns the same safe; in particular the display and the lock flag are unchanged.
\<close>

theorem lock_while_idle_idempotent:
  "state s = LOCKED_IDLE \<Longrightarrow>
     enterAll (replicate n LOCK) s = s \<and>
     readDisplay (enterAll (replicate n LOCK) s) = readDisplay s \<and>
     isLocked (enterAll (replicate n LOCK) s) = isLocked s"
  by (induction n) (simp_all add: enter_def handleLockedIdle_def)

theorem lock_while_idle_idempotent_witness:
  "state (enterAll [KEY, D1, D2, D3, D4, D5, D6, LOCK] newSafeImpl) = LOCKED_IDLE \<and>
   readDisplay (enterAll (replicate 3 LOCK)
     (enterAll [KEY, D1, D2, D3, D4, D5, D6, LOCK] newSafeImpl)) = ''CLOSED'' \<and>
   isLocked (enterAll (replicate 3 LOCK)
     (enterAll [KEY, D1, D2, D3, D4, D5, D6, LOCK] newSafeImpl))"
proof -
  have st: "state (enterAll [KEY, D1, D2, D3, D4, D5, D6, LOCK] newSafeImpl) = LOCKED_IDLE"
    by (simp add: run_simps)
  have d: "readDisplay (enterAll [KEY, D1, D2, D3, D4, D5, D6, LOCK] newSafeImpl) = ''CLOSED''"
    "isLocked (enterAll [KEY, D1, D2, D3, D4, D5, D6, LOCK] newSafeImpl)"
    by (simp_all add: run_simps)
  from lock_while_idle_idempotent [OF st, of 3] st d show ?thesis by simp
qed

subsection \<open>C10: only a correct completed entry unlocks\<close>

text \<open>
  C10: if a reachable safe is locked before a call of \<open>enter\<close> and not locked after
  it, then the state was \<open>ENTERING_PIN\<close>, the button was a digit, and that digit
  completed six entered digits equal to the stored PIN.
\<close>

theorem unlock_only_by_correct_entry:
  "reachable s \<Longrightarrow> isLocked s \<Longrightarrow> \<not> isLocked (enter b s) \<Longrightarrow>
     state s = ENTERING_PIN \<and> isDigitButton b \<and>
     length (enteredDigits s @ buttonToDigit b) = 6 \<and>
     enteredDigits s @ buttonToDigit b = currentPin s"
  by (cases "state s")
    (auto simp add: enter_def handleLockedIdle_def handleLockedError_def
      handleEnteringPin_def handleUnlocked_def handleSettingNewPin_def Let_def isLocked_def
      split: if_splits)

theorem unlock_only_by_correct_entry_witness:
  "reachable (enterAll [KEY, D1, D2, D3, D4, D5] newSafeImpl) \<and>
   isLocked (enterAll [KEY, D1, D2, D3, D4, D5] newSafeImpl) \<and>
   \<not> isLocked (enter D6 (enterAll [KEY, D1, D2, D3, D4, D5] newSafeImpl)) \<and>
   state (enterAll [KEY, D1, D2, D3, D4, D5] newSafeImpl) = ENTERING_PIN \<and>
   isDigitButton D6 \<and>
   enteredDigits (enterAll [KEY, D1, D2, D3, D4, D5] newSafeImpl) @ buttonToDigit D6
     = currentPin (enterAll [KEY, D1, D2, D3, D4, D5] newSafeImpl)"
proof -
  have r: "reachable (enterAll [KEY, D1, D2, D3, D4, D5] newSafeImpl)"
    by (rule reachable_enterAll [OF reachable.fresh])
  have l: "isLocked (enterAll [KEY, D1, D2, D3, D4, D5] newSafeImpl)"
    and u: "\<not> isLocked (enter D6 (enterAll [KEY, D1, D2, D3, D4, D5] newSafeImpl))"
    by (simp_all add: run_simps)
  from unlock_only_by_correct_entry [OF r l u] r l u show ?thesis by simp
qed

end
